theory Spec2Isabelle
  imports Main
begin

section \<open>Go strings, runes and the library functions the program calls\<close>

text \<open>
  A Go \<^verbatim>\<open>string\<close> is a sequence of bytes, modelled as a \<^typ>\<open>char list\<close> (a \<^typ>\<open>char\<close> is one
  byte). \<^verbatim>\<open>len(s)\<close> and the slices \<^verbatim>\<open>s[a:b]\<close> count bytes; \<^verbatim>\<open>[]rune(s)\<close> decodes UTF-8 and
  counts code points. The program indexes both with the same variable, so the model keeps
  the two apart.
\<close>

type_synonym rune = nat

definition byte :: "char \<Rightarrow> nat" where
  "byte c = of_char c"

definition RuneError :: rune where
  "RuneError = 0xFFFD"

text \<open>
  \<^verbatim>\<open>utf8.DecodeRuneInString\<close>: the first code point of \<open>s\<close> and its width in bytes. A byte
  that starts no valid encoding decodes to \<^verbatim>\<open>RuneError\<close> with width 1.
\<close>

definition DecodeRuneInString :: "string \<Rightarrow> rune \<times> nat" where
  "DecodeRuneInString s =
    (case s of
       [] \<Rightarrow> (RuneError, 0)
     | c0 # t \<Rightarrow>
        let s0 = byte c0 in
        if s0 < 0x80 then (s0, 1)
        else if s0 < 0xC2 \<or> 0xF4 < s0 then (RuneError, 1)
        else
          let sz = (if s0 < 0xE0 then 2 else if s0 < 0xF0 then 3 else 4 :: nat);
              lo = (if s0 = 0xE0 then 0xA0 else if s0 = 0xF0 then 0x90 else 0x80);
              hi = (if s0 = 0xED then 0x9F else if s0 = 0xF4 then 0x8F else 0xBF)
          in
          if length s < sz then (RuneError, 1)
          else
            let s1 = byte (s ! 1) in
            if s1 < lo \<or> hi < s1 then (RuneError, 1)
            else if sz \<le> 2 then ((s0 mod 32) * 64 + s1 mod 64, 2)
            else
              let s2 = byte (s ! 2) in
              if s2 < 0x80 \<or> 0xBF < s2 then (RuneError, 1)
              else if sz \<le> 3 then ((s0 mod 16) * 4096 + (s1 mod 64) * 64 + s2 mod 64, 3)
              else
                let s3 = byte (s ! 3) in
                if s3 < 0x80 \<or> 0xBF < s3 then (RuneError, 1)
                else ((s0 mod 8) * 262144 + (s1 mod 64) * 4096 + (s2 mod 64) * 64
                        + s3 mod 64, 4))"

text \<open>The conversion \<^verbatim>\<open>[]rune(s)\<close>: one rune per decoding step.\<close>

fun runes :: "string \<Rightarrow> rune list" where
  "runes [] = []"
| "runes (c # t) =
     fst (DecodeRuneInString (c # t)) # runes (drop (snd (DecodeRuneInString (c # t)) - 1) t)"

text \<open>
  \<^verbatim>\<open>utf8.AppendRune\<close>: the UTF-8 encoding of a code point; a surrogate or a value past
  U+10FFFF is written as the encoding of \<^verbatim>\<open>RuneError\<close>.
\<close>

definition EncodeRune :: "rune \<Rightarrow> string" where
  "EncodeRune r =
    (if r \<le> 0x7F then [char_of r]
     else if r \<le> 0x7FF then [char_of (0xC0 + r div 64), char_of (0x80 + r mod 64)]
     else if 0x10FFFF < r \<or> (0xD800 \<le> r \<and> r \<le> 0xDFFF) then [CHR 0xEF, CHR 0xBF, CHR 0xBD]
     else if r \<le> 0xFFFF then
       [char_of (0xE0 + r div 4096), char_of (0x80 + (r div 64) mod 64), char_of (0x80 + r mod 64)]
     else
       [char_of (0xF0 + r div 262144), char_of (0x80 + (r div 4096) mod 64),
        char_of (0x80 + (r div 64) mod 64), char_of (0x80 + r mod 64)])"

text \<open>
  The Unicode tables of package \<^verbatim>\<open>unicode\<close> are not part of the program. The library
  decides the Latin-1 range from a fixed property table, written out below; the tables it
  consults beyond that range are parameters of the model.
\<close>

record unicode =
  upperTab :: "rune \<Rightarrow> bool"
  lowerTab :: "rune \<Rightarrow> rune"

text \<open>
  \<^verbatim>\<open>unicode.IsUpper\<close>: up to U+00FF the upper-case letters are A-Z, U+00C0-U+00D6 and
  U+00D8-U+00DE; above, the range table \<^verbatim>\<open>unicode.Upper\<close> decides.
\<close>

definition IsUpper :: "unicode \<Rightarrow> rune \<Rightarrow> bool" where
  "IsUpper U r =
    (if r \<le> 0xFF then (0x41 \<le> r \<and> r \<le> 0x5A) \<or> (0xC0 \<le> r \<and> r \<le> 0xD6) \<or> (0xD8 \<le> r \<and> r \<le> 0xDE)
     else upperTab U r)"

text \<open>\<^verbatim>\<open>unicode.ToLower\<close>: ASCII is mapped directly, everything else through the case tables.\<close>

definition ToLowerRune :: "unicode \<Rightarrow> rune \<Rightarrow> rune" where
  "ToLowerRune U r =
    (if r \<le> 0x7F then (if 0x41 \<le> r \<and> r \<le> 0x5A then r + 32 else r) else lowerTab U r)"

text \<open>
  \<^verbatim>\<open>strings.ToLower\<close>: a string of ASCII bytes is lowered byte by byte; any other string
  is decoded, mapped rune by rune and encoded again (\<^verbatim>\<open>strings.Map\<close>), which replaces every
  byte that is not part of a valid encoding.
\<close>

definition ToLower :: "unicode \<Rightarrow> string \<Rightarrow> string" where
  "ToLower U s =
    (if list_all (\<lambda>c. byte c < 0x80) s
     then map (\<lambda>c. if 0x41 \<le> byte c \<and> byte c \<le> 0x5A then char_of (byte c + 32) else c) s
     else concat (map (\<lambda>r. EncodeRune (ToLowerRune U r)) (runes s)))"

text \<open>\<^verbatim>\<open>strings.HasPrefix\<close>, \<^verbatim>\<open>strings.TrimPrefix\<close> and \<^verbatim>\<open>strings.Join\<close>.\<close>

definition HasPrefix :: "string \<Rightarrow> string \<Rightarrow> bool" where
  "HasPrefix s pre = (take (length pre) s = pre)"

definition TrimPrefix :: "string \<Rightarrow> string \<Rightarrow> string" where
  "TrimPrefix s pre = (if HasPrefix s pre then drop (length pre) s else s)"

fun Join :: "string list \<Rightarrow> string \<Rightarrow> string" where
  "Join [] sep = []"
| "Join [x] sep = x"
| "Join (x # y # ys) sep = x @ sep @ Join (y # ys) sep"

text \<open>
  A slice expression out of range and an index out of range panic at run time; the model
  returns the panic as a value.
\<close>

datatype panic = SliceBoundsOutOfRange | IndexOutOfRange

text \<open>\<^verbatim>\<open>s[a:]\<close> and \<^verbatim>\<open>s[a:b]\<close> on a string.\<close>

definition sliceFrom :: "string \<Rightarrow> nat \<Rightarrow> panic + string" where
  "sliceFrom s a = (if a \<le> length s then Inr (drop a s) else Inl SliceBoundsOutOfRange)"

definition slice :: "string \<Rightarrow> nat \<Rightarrow> nat \<Rightarrow> panic + string" where
  "slice s a b =
    (if a \<le> b \<and> b \<le> length s then Inr (take (b - a) (drop a s)) else Inl SliceBoundsOutOfRange)"

section \<open>CamelToSnake\<close>

text \<open>The map \<^verbatim>\<open>commonInitialisms\<close>; a key that is not in a Go map reads as \<^verbatim>\<open>false\<close>.\<close>

definition commonInitialisms :: "string \<Rightarrow> bool" where
  "commonInitialisms k =
    (k \<in> set [''API'', ''ASCII'', ''CPU'', ''CSS'', ''DNS'', ''EOF'', ''GUID'', ''HTML'', ''HTTP'',
       ''HTTPS'', ''ID'', ''IP'', ''JSON'', ''LHS'', ''QPS'', ''RAM'', ''RHS'', ''RPC'', ''SLA'',
       ''SMTP'', ''SQL'', ''SSH'', ''TCP'', ''TLS'', ''TTL'', ''UDP'', ''UI'', ''UID'', ''UUID'',
       ''URI'', ''URL'', ''UTF8'', ''VM'', ''XML'', ''XSRF'', ''XSS''])"

text \<open>
  \<^verbatim>\<open>startsWithInitialism\<close>: the loop runs \<open>i\<close> from 1 to 5 and overwrites its result at
  every prefix length that is an initialism, so the last (longest) one is returned.
\<close>

definition startsWithInitialism :: "string \<Rightarrow> string" where
  "startsWithInitialism s =
    foldl (\<lambda>initialism i.
        if length s > i - 1 \<and> commonInitialisms (take i s) then take i s else initialism)
      [] [1, 2, 3, 4, 5]"

text \<open>
  The scanning loop of \<^verbatim>\<open>CamelToSnake\<close>, from the state \<open>(i, lastPos, words)\<close>. The index
  \<open>i\<close> runs over the runes \<open>rs\<close>, while \<open>lastPos\<close> and \<open>i\<close> slice the bytes of \<open>s\<close>. The
  result is the final \<open>lastPos\<close> and \<open>words\<close>, or the panic of a slice out of range.
\<close>

function camelLoop ::
  "unicode \<Rightarrow> string \<Rightarrow> rune list \<Rightarrow> nat \<Rightarrow> nat \<Rightarrow> string list \<Rightarrow> panic + (nat \<times> string list)"
where
  "camelLoop U s rs i lastPos words =
    (if i < length rs then
       (if i > 0 \<and> IsUpper U (rs ! i) then
          (case sliceFrom s lastPos of
             Inl p \<Rightarrow> Inl p
           | Inr rest \<Rightarrow>
              let initialism = startsWithInitialism rest in
              if initialism \<noteq> [] then
                camelLoop U s rs (i + (length initialism - 1) + 1) (i + (length initialism - 1))
                  (words @ [initialism])
              else
                (case slice s lastPos i of
                   Inl p \<Rightarrow> Inl p
                 | Inr w \<Rightarrow> camelLoop U s rs (i + 1) i (words @ [w])))
        else camelLoop U s rs (i + 1) lastPos words)
     else Inr (lastPos, words))"
  by pat_completeness auto
termination
  by (relation "measure (\<lambda>(U, s, rs, i, lastPos, words). length rs - i)") auto

text \<open>The words of an identifier: the loop, then the trailing segment if it is not empty.\<close>

definition camelWords :: "unicode \<Rightarrow> string \<Rightarrow> panic + string list" where
  "camelWords U s =
    (case camelLoop U s (runes s) 0 0 [] of
       Inl p \<Rightarrow> Inl p
     | Inr (lastPos, words) \<Rightarrow>
        (case sliceFrom s lastPos of
           Inl p \<Rightarrow> Inl p
         | Inr rest \<Rightarrow> Inr (if rest \<noteq> [] then words @ [rest] else words)))"

text \<open>The last loop: the words lowered and joined with an underscore.\<close>

definition joinWords :: "unicode \<Rightarrow> string list \<Rightarrow> string" where
  "joinWords U words =
    foldl (\<lambda>result (k, word). (if k > 0 then result @ ''_'' else result) @ ToLower U word)
      [] (enumerate 0 words)"

definition CamelToSnake :: "unicode \<Rightarrow> string \<Rightarrow> panic + string" where
  "CamelToSnake U s =
    (case camelWords U s of Inl p \<Rightarrow> Inl p | Inr words \<Rightarrow> Inr (joinWords U words))"

section \<open>Struct tags\<close>

definition nl :: string where
  "nl = [CHR 0x0A]"

definition tab :: string where
  "tab = [CHR 0x09]"

definition dq :: string where
  "dq = [CHR 0x22]"

text \<open>
  The regular expression \<^verbatim>\<open>tagRegex\<close> is
  \<^verbatim>\<open>([0-9a-zA-Z,_=&\(\)]+)(:( )?"([0-9a-zA-Z,_=&\(\)]*)")?\<close>.
  Its character class has ASCII members only, so matching bytes and matching runes agree.
\<close>

definition tagChar :: "char \<Rightarrow> bool" where
  "tagChar c =
    ((0x30 \<le> byte c \<and> byte c \<le> 0x39) \<or> (0x61 \<le> byte c \<and> byte c \<le> 0x7A)
      \<or> (0x41 \<le> byte c \<and> byte c \<le> 0x5A) \<or> c \<in> set '',_=&()'')"

text \<open>
  The part \<^verbatim>\<open>"([0-9a-zA-Z,_=&\(\)]*)"\<close> at the start of \<open>r\<close>: the text of group 4 and the
  number of bytes matched. The class excludes the quote, so only the longest run of the
  star can be followed by it.
\<close>

definition matchQuoted :: "string \<Rightarrow> (string \<times> nat) option" where
  "matchQuoted r =
    (if HasPrefix r dq then
       let v = takeWhile tagChar (drop 1 r) in
       if HasPrefix (dropWhile tagChar (drop 1 r)) dq then Some (v, length v + 2) else None
     else None)"

text \<open>
  The optional group \<^verbatim>\<open>(:( )?"...")\<close> at the start of \<open>r\<close>: the alternative with the space
  is tried first, then the one without.
\<close>

definition matchValue :: "string \<Rightarrow> (string \<times> nat) option" where
  "matchValue r =
    (if HasPrefix r '':'' then
       (case (if HasPrefix (drop 1 r) '' '' then matchQuoted (drop 2 r) else None) of
          Some (v, n) \<Rightarrow> Some (v, n + 2)
        | None \<Rightarrow>
           (case matchQuoted (drop 1 r) of Some (v, n) \<Rightarrow> Some (v, n + 1) | None \<Rightarrow> None))
     else None)"

text \<open>
  \<^verbatim>\<open>tagRegex.FindAllStringSubmatch(input, -1)\<close>, as the list of the pairs \<open>(v[1], v[4])\<close> of
  the successive leftmost matches. A match starts at the first byte of the class, group 1
  takes the longest run (the rest of the pattern may match empty), and a group that did not
  take part reads as the empty string. The search goes on where the match ended.
\<close>

function tagMatches :: "string \<Rightarrow> (string \<times> string) list" where
  "tagMatches [] = []"
| "tagMatches (c # cs) =
    (if tagChar c then
       (case matchValue (dropWhile tagChar cs) of
          Some (v, n) \<Rightarrow>
            (c # takeWhile tagChar cs, v) # tagMatches (drop n (dropWhile tagChar cs))
        | None \<Rightarrow> (c # takeWhile tagChar cs, []) # tagMatches (dropWhile tagChar cs))
     else tagMatches cs)"
  by pat_completeness auto
termination
  by (relation "measure length")
    (auto simp: less_Suc_eq_le length_dropWhile_le
      intro: order.trans [OF diff_le_self length_dropWhile_le])

text \<open>A \<^verbatim>\<open>map[string]string\<close>.\<close>

type_synonym tags = "string \<rightharpoonup> string"

definition tagParser :: "string \<Rightarrow> tags" where
  "tagParser input = foldl (\<lambda>tags v. tags(fst v \<mapsto> snd v)) Map.empty (tagMatches input)"

section \<open>The environment of a run\<close>

text \<open>
  What a run takes from outside the program:
  \<^item> \<open>tables\<close>: the Unicode tables;
  \<^item> \<open>mapRange\<close>: the entries of a map in the order a \<^verbatim>\<open>range\<close> statement yields them. The
    language leaves the order to the runtime, which chooses it afresh in every run;
  \<^item> \<open>Source\<close>: \<^verbatim>\<open>format.Source\<close>, the formatted text or an error message;
  \<^item> \<open>WriteFile\<close>: \<^verbatim>\<open>ioutil.WriteFile\<close>, an error message or nothing;
  \<^item> \<open>filepathJoin\<close>: \<^verbatim>\<open>filepath.Join\<close> of two elements.
\<close>

record env =
  tables :: unicode
  mapRange :: "tags \<Rightarrow> (string \<times> string) list"
  Source :: "string \<Rightarrow> string + string"
  WriteFile :: "string \<Rightarrow> string \<Rightarrow> string option"
  filepathJoin :: "string \<Rightarrow> string \<Rightarrow> string"

text \<open>
  What the language guarantees of a \<^verbatim>\<open>range\<close> over a map: every entry is yielded
  once, in some order.
\<close>

definition rangeOver :: "tags \<Rightarrow> (string \<times> string) list \<Rightarrow> bool" where
  "rangeOver tags es = (distinct (map fst es) \<and> map_of es = tags)"

text \<open>The body of the loop of \<^verbatim>\<open>tagString\<close>, for the entry \<open>(i, v)\<close>.\<close>

definition tagStep :: "string \<Rightarrow> string \<times> string \<Rightarrow> string" where
  "tagStep output e =
    (if snd e = [] then output @ '' '' @ fst e
     else output @ '' '' @ fst e @ '':'' @ dq @ snd e @ dq)"

text \<open>\<^verbatim>\<open>tagString\<close> on the entries in the order the loop visits them.\<close>

definition tagStringOf :: "(string \<times> string) list \<Rightarrow> string" where
  "tagStringOf es = TrimPrefix (foldl tagStep [] es) '' ''"

definition tagString :: "env \<Rightarrow> tags \<Rightarrow> string" where
  "tagString E tags = tagStringOf (mapRange E tags)"

section \<open>The generator\<close>

text \<open>
  The syntax tree of \<^verbatim>\<open>go/ast\<close>, as far as the program looks into it: the type
  assertions it makes are the constructors, and every other node is one opaque value.
  \<open>Tag\<close> is \<^verbatim>\<open>field.Tag.Value\<close>, the literal as written with its quotes.
\<close>

datatype fieldType = Ident string | NotIdent

record field =
  Names :: "string list"
  Type :: fieldType
  Tag :: "string option"

datatype typeExpr = StructType "field list" | NotStructType

datatype spec = TypeSpec string typeExpr | NotTypeSpec

datatype tok = token_TYPE | token_other

datatype decl = GenDecl tok "spec list" | NotGenDecl

text \<open>A file of the package with the result of \<^verbatim>\<open>parser.ParseFile\<close>.\<close>

record File =
  Name :: string
  AstFile :: "string + decl list"

fun contains :: "string list \<Rightarrow> string \<Rightarrow> bool" where
  "contains [] key = False"
| "contains (v # list) key = (if v = key then True else contains list key)"

text \<open>
  The tag update in the loop over the fields: the value of the key \<^verbatim>\<open>json\<close> is set from
  the field's name where the tag gives none.
\<close>

definition synthesize :: "unicode \<Rightarrow> string \<Rightarrow> tags \<Rightarrow> panic + tags" where
  "synthesize U fieldName tags =
    (case tags ''json'' of
       Some jsonTag \<Rightarrow>
         if HasPrefix jsonTag '','' then
           (case CamelToSnake U fieldName of
              Inl p \<Rightarrow> Inl p
            | Inr label \<Rightarrow> Inr (tags(''json'' \<mapsto> label @ jsonTag)))
         else Inr tags
     | None \<Rightarrow>
         (case CamelToSnake U fieldName of
            Inl p \<Rightarrow> Inl p
          | Inr label \<Rightarrow> Inr (tags(''json'' \<mapsto> label))))"

text \<open>
  One round of the loop over the fields: the name stored in \<^verbatim>\<open>fieldNames\<close> and the text
  printed. The name is stored before the type is looked at. \<^verbatim>\<open>field.Names[0]\<close> panics
  for a field without a name (an embedded field), and the slice
  \<^verbatim>\<open>field.Tag.Value[1 : len(field.Tag.Value)-1]\<close> panics for a literal of fewer than two
  bytes: the upper bound is then below the lower one, also with the subtraction of
  natural numbers.
\<close>

definition genField :: "env \<Rightarrow> field \<Rightarrow> panic + (string \<times> string)" where
  "genField E fld =
    (case Names fld of
       [] \<Rightarrow> Inl IndexOutOfRange
     | fieldName # _ \<Rightarrow>
        (case Type fld of
           NotIdent \<Rightarrow> Inr (fieldName, [])
         | Ident fieldType \<Rightarrow>
            (case (case Tag fld of None \<Rightarrow> Inr [] | Some lit \<Rightarrow> slice lit 1 (length lit - 1)) of
               Inl p \<Rightarrow> Inl p
             | Inr tagValue \<Rightarrow>
                (case synthesize (tables E) fieldName (tagParser tagValue) of
                   Inl p \<Rightarrow> Inl p
                 | Inr tags \<Rightarrow>
                    Inr (fieldName,
                      fieldName @ '' '' @ fieldType @ '' `'' @ tagString E tags @ ''`'' @ nl)))))"

text \<open>The loop over the fields: the text printed and \<^verbatim>\<open>fieldNames\<close>.\<close>

fun genFields :: "env \<Rightarrow> field list \<Rightarrow> panic + (string \<times> string list)" where
  "genFields E [] = Inr ([], [])"
| "genFields E (fld # flds) =
    (case genField E fld of
       Inl p \<Rightarrow> Inl p
     | Inr (fieldName, line) \<Rightarrow>
        (case genFields E flds of
           Inl p \<Rightarrow> Inl p
         | Inr (lines, fieldNames) \<Rightarrow> Inr (line @ lines, fieldName # fieldNames)))"

text \<open>The three declarations printed for a struct type.\<close>

definition mirrorType :: "string \<Rightarrow> string \<Rightarrow> string" where
  "mirrorType name lines = ''type '' @ name @ ''JSON struct {'' @ nl @ lines @ ''}'' @ nl @ nl"

definition marshalMethod :: "string \<Rightarrow> string" where
  "marshalMethod name =
    ''func (m '' @ name @ '') MarshalJSON() ([]byte, error) {'' @ nl
    @ tab @ ''j := New'' @ name @ ''JSON(&m)'' @ nl
    @ tab @ ''return json.Marshal(j)'' @ nl
    @ ''}'' @ nl @ nl"

definition constructor :: "string \<Rightarrow> string list \<Rightarrow> string" where
  "constructor name fieldNames =
    ''func New'' @ name @ ''JSON(m *'' @ name @ '') *'' @ name @ ''JSON {'' @ nl
    @ tab @ ''v := &'' @ name @ ''JSON{}'' @ nl
    @ concat (map (\<lambda>fieldName. tab @ ''v.'' @ fieldName @ '' = m.'' @ fieldName @ nl) fieldNames)
    @ ''return v'' @ nl
    @ ''}'' @ nl @ nl"

text \<open>The body of the loop over the specs of a declaration.\<close>

fun genSpec :: "env \<Rightarrow> string list \<Rightarrow> spec \<Rightarrow> panic + string" where
  "genSpec E types NotTypeSpec = Inr []"
| "genSpec E types (TypeSpec name ty) =
    (if \<not> contains types name then Inr []
     else
       (case ty of
          NotStructType \<Rightarrow> Inr []
        | StructType flds \<Rightarrow>
           (case genFields E flds of
              Inl p \<Rightarrow> Inl p
            | Inr (lines, fieldNames) \<Rightarrow>
               Inr (mirrorType name lines @ marshalMethod name @ constructor name fieldNames))))"

fun genSpecs :: "env \<Rightarrow> string list \<Rightarrow> spec list \<Rightarrow> panic + string" where
  "genSpecs E types [] = Inr []"
| "genSpecs E types (sp # sps) =
    (case genSpec E types sp of
       Inl p \<Rightarrow> Inl p
     | Inr t \<Rightarrow> (case genSpecs E types sps of Inl p \<Rightarrow> Inl p | Inr ts \<Rightarrow> Inr (t @ ts)))"

fun genDecl :: "env \<Rightarrow> string list \<Rightarrow> decl \<Rightarrow> panic + string" where
  "genDecl E types NotGenDecl = Inr []"
| "genDecl E types (GenDecl t specs) = (if t \<noteq> token_TYPE then Inr [] else genSpecs E types specs)"

fun genDecls :: "env \<Rightarrow> string list \<Rightarrow> decl list \<Rightarrow> panic + string" where
  "genDecls E types [] = Inr []"
| "genDecls E types (d # ds) =
    (case genDecl E types d of
       Inl p \<Rightarrow> Inl p
     | Inr t \<Rightarrow> (case genDecls E types ds of Inl p \<Rightarrow> Inl p | Inr ts \<Rightarrow> Inr (t @ ts)))"

fun genFiles :: "env \<Rightarrow> string list \<Rightarrow> decl list list \<Rightarrow> panic + string" where
  "genFiles E types [] = Inr []"
| "genFiles E types (f # fs) =
    (case genDecls E types f of
       Inl p \<Rightarrow> Inl p
     | Inr t \<Rightarrow> (case genFiles E types fs of Inl p \<Rightarrow> Inl p | Inr ts \<Rightarrow> Inr (t @ ts)))"

text \<open>The lines printed before the files are read.\<close>

definition header :: "string list \<Rightarrow> string \<Rightarrow> string" where
  "header osArgs pkgName =
    ''// Code generated by '' @ dq @ ''json_snake_case '' @ Join osArgs '' '' @ dq
      @ ''; DO NOT EDIT'' @ nl
    @ nl
    @ ''package '' @ pkgName
    @ nl
    @ ''import '' @ dq @ ''encoding/json'' @ dq @ nl"

text \<open>
  The loop that parses the files: the first error ends the run through \<^verbatim>\<open>log.Fatalf\<close>,
  with the line it logs.
\<close>

fun parseFiles :: "File list \<Rightarrow> string + decl list list" where
  "parseFiles [] = Inr []"
| "parseFiles (v # vs) =
    (case AstFile v of
       Inl err \<Rightarrow> Inl (''json_snake: parsing package: '' @ Name v @ '': '' @ err)
     | Inr parsedFile \<Rightarrow>
        (case parseFiles vs of Inl msg \<Rightarrow> Inl msg | Inr asts \<Rightarrow> Inr (parsedFile # asts)))"

text \<open>
  \<^verbatim>\<open>Generator.format\<close>: the bytes returned and the lines logged. An error of
  \<^verbatim>\<open>format.Source\<close> is logged as two warnings and the buffer is returned as it is.
\<close>

definition format :: "env \<Rightarrow> string \<Rightarrow> string \<times> string list" where
  "format E buf =
    (case Source E buf of
       Inl err \<Rightarrow>
         (buf,
          [''json_snake: warning: internal error: invalid Go generated: '' @ err,
           ''json_snake: warning: compile the package to analyze the error''])
     | Inr src \<Rightarrow> (src, []))"

definition outputName :: "env \<Rightarrow> string \<Rightarrow> string list \<Rightarrow> string \<Rightarrow> panic + string" where
  "outputName E output types dir =
    (if output = [] then
       (case types of
          [] \<Rightarrow> Inl IndexOutOfRange
        | t # _ \<Rightarrow> Inr (filepathJoin E dir (ToLower (tables E) (t @ ''_json.go''))))
     else Inr output)"

text \<open>
  How a run ends: the exit status, the lines logged and the file written.
\<close>

datatype exit = ExitOK | ExitFatal | ExitPanic panic

record outcome =
  status :: exit
  logged :: "string list"
  written :: "(string \<times> string) option"

text \<open>
  \<^verbatim>\<open>main\<close> from the first \<^verbatim>\<open>Printf\<close> on: \<open>osArgs\<close> is \<^verbatim>\<open>os.Args[1:]\<close>, \<open>types\<close> the
  split \<^verbatim>\<open>-type\<close> flag, \<open>output\<close> the \<^verbatim>\<open>-output\<close> flag, \<open>dir\<close> and \<open>pkgName\<close> the
  package's directory and name, \<open>files\<close> its Go files.
\<close>

definition main ::
  "env \<Rightarrow> string list \<Rightarrow> string list \<Rightarrow> string \<Rightarrow> string \<Rightarrow> string \<Rightarrow> File list \<Rightarrow> outcome"
where
  "main E osArgs types output dir pkgName files =
    (case parseFiles files of
       Inl msg \<Rightarrow> \<lparr>status = ExitFatal, logged = [msg], written = None\<rparr>
     | Inr asts \<Rightarrow>
        (case genFiles E types asts of
           Inl p \<Rightarrow> \<lparr>status = ExitPanic p, logged = [], written = None\<rparr>
         | Inr body \<Rightarrow>
            (case outputName E output types dir of
               Inl p \<Rightarrow>
                 \<lparr>status = ExitPanic p, logged = snd (format E (header osArgs pkgName @ body)),
                  written = None\<rparr>
             | Inr name \<Rightarrow>
                (case WriteFile E name (fst (format E (header osArgs pkgName @ body))) of
                   Some err \<Rightarrow>
                     \<lparr>status = ExitFatal,
                      logged = snd (format E (header osArgs pkgName @ body))
                        @ [''json_snake: writing output: '' @ err],
                      written = None\<rparr>
                 | None \<Rightarrow>
                     \<lparr>status = ExitOK, logged = snd (format E (header osArgs pkgName @ body)),
                      written = Some (name, fst (format E (header osArgs pkgName @ body)))\<rparr>))))"

section \<open>Predicates of the claims\<close>





section \<open>Sample inputs\<close>

text \<open>
  Unicode tables for the examples: no upper-case letter above U+00FF and no lower-case
  mapping above U+007F. The examples use code points up to U+00FF only, on which the
  tables of the library are not consulted by \<^const>\<open>IsUpper\<close>.
\<close>

definition sampleTables :: unicode where
  "sampleTables = \<lparr>upperTab = (\<lambda>r. False), lowerTab = (\<lambda>r. r)\<rparr>"

text \<open>
  A run in which a \<^verbatim>\<open>range\<close> over a map yields the entries \<open>es\<close>, the formatter fails and
  the file system accepts the write.
\<close>

definition sampleEnv :: "(string \<times> string) list \<Rightarrow> env" where
  "sampleEnv es =
    \<lparr>tables = sampleTables, mapRange = (\<lambda>tags. es), Source = (\<lambda>buf. Inl ''syntax error''),
     WriteFile = (\<lambda>name data. None), filepathJoin = (\<lambda>dir name. dir @ ''/'' @ name)\<rparr>"

text \<open>
  \<^verbatim>\<open>type T struct { A int; B []string }\<close>: the type of \<open>B\<close> is not an identifier.
\<close>

definition mixedStruct :: spec where
  "mixedStruct =
    TypeSpec ''T'' (StructType
      [\<lparr>Names = [''A''], Type = Ident ''int'', Tag = None\<rparr>,
       \<lparr>Names = [''B''], Type = NotIdent, Tag = None\<rparr>])"

text \<open>\<^verbatim>\<open>type User struct { Name string `validate:"required"` }\<close>.\<close>

definition taggedStruct :: spec where
  "taggedStruct =
    TypeSpec ''User'' (StructType
      [\<lparr>Names = [''Name''], Type = Ident ''string'',
        Tag = Some (''`validate:'' @ dq @ ''required'' @ dq @ ''`'')\<rparr>])"

text \<open>A file that declares \<open>T\<close> as above and \<^verbatim>\<open>type N int\<close> after a function.\<close>

definition sampleFiles :: "File list" where
  "sampleFiles =
    [\<lparr>Name = ''t.go'', AstFile = Inr [NotGenDecl, GenDecl token_TYPE [mixedStruct, TypeSpec ''N'' NotStructType]]\<rparr>]"

section \<open>Evaluation\<close>

declare camelLoop.simps [simp del]

lemmas camel_eval =
  CamelToSnake_def camelWords_def joinWords_def ToLower_def IsUpper_def
  startsWithInitialism_def commonInitialisms_def sliceFrom_def slice_def
  DecodeRuneInString_def byte_def char_of_def bit_iff_odd camelLoop.simps

lemmas tag_eval =
  tagParser_def tagChar_def matchValue_def matchQuoted_def HasPrefix_def TrimPrefix_def
  tagString_def tagStringOf_def tagStep_def nl_def dq_def tab_def

lemmas gen_eval =
  genField_def synthesize_def mirrorType_def marshalMethod_def constructor_def header_def
  format_def outputName_def main_def sampleEnv_def sampleTables_def

section \<open>CamelToSnake on the examples of the specification\<close>

text \<open>
  Claim C6: \<^verbatim>\<open>toSnakeCase("UserID")\<close> is \<^verbatim>\<open>"user_id"\<close>, \<^verbatim>\<open>toSnakeCase("ID")\<close> is \<^verbatim>\<open>"id"\<close> and
  \<^verbatim>\<open>toSnakeCase("APIKeyID")\<close> is \<^verbatim>\<open>"api_key_id"\<close>, whatever the Unicode tables are.
\<close>

theorem CamelToSnake_examples:
  "CamelToSnake U ''UserID'' = Inr ''user_id''
   \<and> CamelToSnake U ''ID'' = Inr ''id''
   \<and> CamelToSnake U ''APIKeyID'' = Inr ''api_key_id''"
  by (simp add: camel_eval)



section \<open>Identifiers with no upper-case letter after the first\<close>

lemma camelLoop_no_upper:
  "0 < i \<Longrightarrow> list_all (\<lambda>r. \<not> IsUpper U r) (drop i rs)
    \<Longrightarrow> camelLoop U s rs i lastPos words = Inr (lastPos, words)"
proof (induction "length rs - i" arbitrary: i)
  case 0
  then show ?case by (simp add: camelLoop.simps)
next
  case (Suc n)
  then have lt: "i < length rs" by simp
  then have split: "drop i rs = rs ! i # drop (Suc i) rs"
    by (simp add: Cons_nth_drop_Suc)
  with Suc.prems have "\<not> IsUpper U (rs ! i)" by simp
  with lt have "camelLoop U s rs i lastPos words = camelLoop U s rs (Suc i) lastPos words"
    by (subst camelLoop.simps) simp
  moreover have "camelLoop U s rs (Suc i) lastPos words = Inr (lastPos, words)"
    using Suc.hyps Suc.prems split by simp
  ultimately show ?case by simp
qed

lemma camelLoop_start_no_upper:
  "list_all (\<lambda>r. \<not> IsUpper U r) (tl rs) \<Longrightarrow> camelLoop U s rs 0 0 [] = Inr (0, [])"
  by (subst camelLoop.simps) (simp add: camelLoop_no_upper drop_Suc)

text \<open>
  Claim C10: an input with no upper-case character at any position after position 0 comes
  back lowered as a single word: the result is \<^verbatim>\<open>strings.ToLower\<close> of the whole input, and no
  underscore is inserted. Positions are those of the runes, which the loop tests.
\<close>

theorem CamelToSnake_no_upper:
  "list_all (\<lambda>r. \<not> IsUpper U r) (tl (runes s)) \<Longrightarrow> CamelToSnake U s = Inr (ToLower U s)"
proof -
  assume "list_all (\<lambda>r. \<not> IsUpper U r) (tl (runes s))"
  then have "camelLoop U s (runes s) 0 0 [] = Inr (0, [])"
    by (rule camelLoop_start_no_upper)
  then show ?thesis
    by (cases s)
      (simp_all add: CamelToSnake_def camelWords_def sliceFrom_def joinWords_def ToLower_def)
qed

theorem CamelToSnake_no_upper_witness:
  "list_all (\<lambda>r. \<not> IsUpper sampleTables r) (tl (runes ''User_name1''))
   \<and> CamelToSnake sampleTables ''User_name1'' = Inr ''user_name1''"
proof -
  have h: "list_all (\<lambda>r. \<not> IsUpper sampleTables r) (tl (runes ''User_name1''))"
    by (simp add: camel_eval)
  have "ToLower sampleTables ''User_name1'' = ''user_name1''"
    by (simp add: camel_eval)
  with CamelToSnake_no_upper [OF h] h show ?thesis by simp
qed

section \<open>CamelToSnake never panics\<close>

text \<open>
  The loop slices the bytes of \<open>s\<close> at \<open>lastPos\<close> and \<open>i\<close>, which count runes. The slices
  stay in range because a string has at least as many bytes as runes, and because an
  initialism found at \<open>lastPos\<close> is made of ASCII upper-case letters (but for the digit that
  ends \<^verbatim>\<open>UTF8\<close>): a rune index that runs ahead of \<open>lastPos\<close> without meeting one of them
  has left enough bytes behind.
\<close>

lemma decode_ascii: "byte c < 0x80 \<Longrightarrow> DecodeRuneInString (c # t) = (byte c, 1)"
  by (simp add: DecodeRuneInString_def)

lemma length_runes_le: "length (runes s) \<le> length s"
proof (induction s rule: runes.induct)
  case 1
  show ?case by simp
next
  case (2 c t)
  have "length (drop (snd (DecodeRuneInString (c # t)) - 1) t) \<le> length t" by simp
  with 2 show ?case by simp
qed

lemma runes_drop_offset:
  "j \<le> length (runes s) \<Longrightarrow> \<exists>b. j \<le> b \<and> drop j (runes s) = runes (drop b s)"
proof (induction j)
  case 0
  show ?case by (rule exI [of _ 0]) simp
next
  case (Suc j)
  then obtain b where b: "j \<le> b" "drop j (runes s) = runes (drop b s)" by auto
  from Suc.prems have "drop j (runes s) \<noteq> []" by simp
  with b(2) have "drop b s \<noteq> []" by auto
  then obtain c t where ct: "drop b s = c # t" by (cases "drop b s") auto
  let ?w = "snd (DecodeRuneInString (c # t)) - 1"
  have "drop (Suc j) (runes s) = tl (drop j (runes s))" by (simp add: drop_Suc tl_drop)
  also have "\<dots> = runes (drop ?w t)" by (simp add: b(2) ct)
  also have "drop ?w t = drop (b + 1 + ?w) s"
  proof -
    have "t = drop (b + 1) s" using ct by (metis Suc_eq_plus1 drop_Suc list.sel(3) tl_drop)
    then show ?thesis by (simp add: add.commute)
  qed
  finally have "drop (Suc j) (runes s) = runes (drop (b + 1 + ?w) s)" .
  moreover have "Suc j \<le> b + 1 + ?w" using b(1) by simp
  ultimately show ?case by blast
qed

lemma startsWithInitialism_cases:
  "startsWithInitialism rest = [] \<or>
   (commonInitialisms (startsWithInitialism rest)
    \<and> startsWithInitialism rest = take (length (startsWithInitialism rest)) rest)"
  by (auto simp: startsWithInitialism_def min_def)

lemma commonInitialisms_shape:
  "commonInitialisms w \<Longrightarrow>
    2 \<le> length w \<and> length w \<le> 5
    \<and> list_all (\<lambda>c. 0x41 \<le> byte c \<and> byte c \<le> 0x5A) (butlast w)
    \<and> (w = ''UTF8'' \<or> (0x41 \<le> byte (last w) \<and> byte (last w) \<le> 0x5A))"
  unfolding commonInitialisms_def by (auto simp: byte_def)

lemma initialism_second_upper:
  "commonInitialisms w \<Longrightarrow> 0x41 \<le> byte (w ! 1) \<and> byte (w ! 1) \<le> 0x5A"
  unfolding commonInitialisms_def by (auto simp: byte_def)

lemma IsUpper_ascii: "0x41 \<le> r \<Longrightarrow> r \<le> 0x5A \<Longrightarrow> IsUpper U r"
  by (simp add: IsUpper_def)

lemma initialism_excess:
  assumes w: "commonInitialisms w" "w = take (length w) (drop p s)"
    and p: "Suc p < length (runes s)"
    and low: "\<not> IsUpper U (runes s ! Suc p)"
  shows "length (runes s) + length w \<le> length s + 2"
proof -
  from p obtain b where b: "Suc p \<le> b" "drop (Suc p) (runes s) = runes (drop b s)"
    using runes_drop_offset [of "Suc p" s] by auto
  from p have ne: "drop (Suc p) (runes s) \<noteq> []" by simp
  with b(2) have "drop b s \<noteq> []" by auto
  then have bs: "b < length s" by simp
  then have cons: "drop b s = s ! b # drop (Suc b) s" by (simp add: Cons_nth_drop_Suc)
  have "length (drop (Suc p) (runes s)) \<le> length (drop b s)"
    unfolding b(2) by (rule length_runes_le)
  then have len: "length (runes s) + b \<le> length s + Suc p" using p bs by simp
  show ?thesis
  proof (cases "p + length w \<le> b + 1")
    case True
    with len show ?thesis by simp
  next
    case False
    define k where "k = b - p"
    from False b(1) have k: "1 \<le> k" "k + 1 < length w" "b = p + k" by (simp_all add: k_def)
    from commonInitialisms_shape [OF w(1)]
    have "list_all (\<lambda>c. 0x41 \<le> byte c \<and> byte c \<le> 0x5A) (butlast w)" by simp
    with k(2) have up: "0x41 \<le> byte (butlast w ! k) \<and> byte (butlast w ! k) \<le> 0x5A"
      by (simp add: list_all_length)
    have "butlast w ! k = w ! k" using k(2) by (simp add: nth_butlast)
    also have "w ! k = take (length w) (drop p s) ! k" using w(2) by simp
    also have "\<dots> = s ! b" using k bs by simp
    finally have wk: "butlast w ! k = s ! b" .
    with up have ascii: "byte (s ! b) < 0x80" by simp
    have "runes s ! Suc p = hd (drop (Suc p) (runes s))" using p by (simp add: hd_drop_conv_nth)
    also have "\<dots> = byte (s ! b)"
      unfolding b(2) cons by (simp add: decode_ascii [OF ascii])
    finally have "IsUpper U (runes s ! Suc p)" using up wk by (simp add: IsUpper_ascii)
    with low show ?thesis by contradiction
  qed
qed

lemma runes_ascii: "list_all (\<lambda>c. byte c < 0x80) s \<Longrightarrow> runes s = map byte s"
  by (induction s) (simp_all add: decode_ascii)

text \<open>
  The invariant of the loop: \<open>lastPos\<close> is behind \<open>i\<close> and within the string, and no rune
  strictly between them is upper case. On ASCII input the words collected so far are the
  bytes before \<open>lastPos\<close>.
\<close>

lemma camelLoop_invariant:
  assumes "(i = 0 \<and> lastPos = 0) \<or> lastPos < i"
    and "lastPos \<le> length s"
    and "\<forall>j. lastPos < j \<and> j < i \<and> j < length (runes s) \<longrightarrow> \<not> IsUpper U (runes s ! j)"
  shows "\<exists>lp ws. camelLoop U s (runes s) i lastPos words = Inr (lp, ws) \<and> lp \<le> length s
          \<and> (list_all (\<lambda>c. byte c < 0x80) s \<longrightarrow> concat words = take lastPos s
                \<longrightarrow> concat ws = take lp s)"
  using assms
proof (induction "length (runes s) - i" arbitrary: i lastPos words rule: less_induct)
  case less
  let ?rs = "runes s"
  note pos = less.prems(1) and bound = less.prems(2) and J = less.prems(3)
  show ?case
  proof (cases "i < length ?rs")
    case False
    then have "camelLoop U s ?rs i lastPos words = Inr (lastPos, words)"
      by (subst camelLoop.simps) simp
    with bound show ?thesis by simp
  next
    case lt: True
    have rs_le: "length ?rs \<le> length s" by (rule length_runes_le)
    show ?thesis
    proof (cases "i > 0 \<and> IsUpper U (?rs ! i)")
      case False
      with lt have step: "camelLoop U s ?rs i lastPos words = camelLoop U s ?rs (i + 1) lastPos words"
        by (subst camelLoop.simps) auto
      have "\<exists>lp ws. camelLoop U s ?rs (i + 1) lastPos words = Inr (lp, ws) \<and> lp \<le> length s
          \<and> (list_all (\<lambda>c. byte c < 0x80) s \<longrightarrow> concat words = take lastPos s
                \<longrightarrow> concat ws = take lp s)"
      proof (rule less.hyps)
        show "length ?rs - (i + 1) < length ?rs - i" using lt by simp
        show "(i + 1 = 0 \<and> lastPos = 0) \<or> lastPos < i + 1" using pos by auto
        show "lastPos \<le> length s" by (rule bound)
        show "\<forall>j. lastPos < j \<and> j < i + 1 \<and> j < length ?rs \<longrightarrow> \<not> IsUpper U (?rs ! j)"
        proof (intro allI impI)
          fix j assume j: "lastPos < j \<and> j < i + 1 \<and> j < length ?rs"
          show "\<not> IsUpper U (?rs ! j)"
          proof (cases "j = i")
            case True
            with j False show ?thesis by auto
          next
            case False
            with j J show ?thesis by auto
          qed
        qed
      qed
      with step show ?thesis by simp
    next
      case trigger: True
      with pos have lp_lt: "lastPos < i" by auto
      have sf: "sliceFrom s lastPos = Inr (drop lastPos s)" using bound by (simp add: sliceFrom_def)
      let ?w = "startsWithInitialism (drop lastPos s)"
      show ?thesis
      proof (cases "?w = []")
        case True
        have sl: "slice s lastPos i = Inr (take (i - lastPos) (drop lastPos s))"
          using lp_lt lt rs_le by (simp add: slice_def)
        let ?word = "take (i - lastPos) (drop lastPos s)"
        from lt trigger True have step:
          "camelLoop U s ?rs i lastPos words = camelLoop U s ?rs (i + 1) i (words @ [?word])"
          by (subst camelLoop.simps) (simp add: sf sl)
        have "\<exists>lp ws. camelLoop U s ?rs (i + 1) i (words @ [?word]) = Inr (lp, ws) \<and> lp \<le> length s
          \<and> (list_all (\<lambda>c. byte c < 0x80) s \<longrightarrow> concat (words @ [?word]) = take i s
                \<longrightarrow> concat ws = take lp s)"
        proof (rule less.hyps)
          show "length ?rs - (i + 1) < length ?rs - i" using lt by simp
          show "(i + 1 = 0 \<and> i = 0) \<or> i < i + 1" by simp
          show "i \<le> length s" using lt rs_le by simp
          show "\<forall>j. i < j \<and> j < i + 1 \<and> j < length ?rs \<longrightarrow> \<not> IsUpper U (?rs ! j)" by auto
        qed
        moreover have "concat words = take lastPos s \<Longrightarrow> concat (words @ [?word]) = take i s"
        proof -
          assume "concat words = take lastPos s"
          then have "concat (words @ [?word]) = take lastPos s @ take (i - lastPos) (drop lastPos s)"
            by simp
          also have "\<dots> = take (lastPos + (i - lastPos)) s" by (simp only: take_add)
          finally show ?thesis using lp_lt by simp
        qed
        ultimately show ?thesis using step by auto
      next
        case False
        with startsWithInitialism_cases [of "drop lastPos s"]
        have ci: "commonInitialisms ?w" and tk: "?w = take (length ?w) (drop lastPos s)"
          by auto
        from commonInitialisms_shape [OF ci] have L: "2 \<le> length ?w" "length ?w \<le> 5" by simp_all
        from tk have "length ?w = min (length s - lastPos) (length ?w)"
          by (metis length_take length_drop)
        then have fit: "lastPos + length ?w \<le> length s" using bound by (simp add: min_def split: if_splits)
        let ?lp = "i + (length ?w - 1)"
        from lt trigger False have step:
          "camelLoop U s ?rs i lastPos words = camelLoop U s ?rs (?lp + 1) ?lp (words @ [?w])"
          by (subst camelLoop.simps) (simp add: sf Let_def)
        have lp_bound: "?lp \<le> length s"
        proof (cases "i = Suc lastPos")
          case True
          with fit L show ?thesis by simp
        next
          case False
          with lp_lt have far: "Suc lastPos < i" by simp
          with lt have "Suc lastPos < length ?rs" by simp
          moreover from far lt J have "\<not> IsUpper U (?rs ! Suc lastPos)" by simp
          ultimately have "length ?rs + length ?w \<le> length s + 2"
            using initialism_excess [OF ci tk] by simp
          with lt L show ?thesis by simp
        qed
        have "\<exists>lp ws. camelLoop U s ?rs (?lp + 1) ?lp (words @ [?w]) = Inr (lp, ws) \<and> lp \<le> length s
          \<and> (list_all (\<lambda>c. byte c < 0x80) s \<longrightarrow> concat (words @ [?w]) = take ?lp s
                \<longrightarrow> concat ws = take lp s)"
        proof (rule less.hyps)
          show "length ?rs - (?lp + 1) < length ?rs - i" using lt by simp
          show "(?lp + 1 = 0 \<and> ?lp = 0) \<or> ?lp < ?lp + 1" by simp
          show "?lp \<le> length s" by (rule lp_bound)
          show "\<forall>j. ?lp < j \<and> j < ?lp + 1 \<and> j < length ?rs \<longrightarrow> \<not> IsUpper U (?rs ! j)" by auto
        qed
        moreover have "concat (words @ [?w]) = take ?lp s"
          if ascii: "list_all (\<lambda>c. byte c < 0x80) s" and cw: "concat words = take lastPos s"
        proof -
          have rs: "?rs = map byte s" by (rule runes_ascii [OF ascii])
          have next_i: "i = Suc lastPos"
          proof (rule ccontr)
            assume "i \<noteq> Suc lastPos"
            with lp_lt have far: "Suc lastPos < i" by simp
            with lt J have low: "\<not> IsUpper U (?rs ! Suc lastPos)" by simp
            from far lt rs have in_s: "Suc lastPos < length s" by simp
            have "?w ! 1 = take (length ?w) (drop lastPos s) ! 1" using tk by simp
            also have "\<dots> = s ! Suc lastPos" using L in_s by simp
            finally have "?w ! 1 = s ! Suc lastPos" .
            with initialism_second_upper [OF ci] have "IsUpper U (byte (s ! Suc lastPos))"
              by (simp add: IsUpper_ascii)
            with low rs in_s show False by simp
          qed
          have "concat (words @ [?w]) = take lastPos s @ take (length ?w) (drop lastPos s)"
            using cw tk by simp
          also have "\<dots> = take (lastPos + length ?w) s" by (simp only: take_add)
          also have "lastPos + length ?w = ?lp" using next_i L by simp
          finally show ?thesis .
        qed
        ultimately show ?thesis using step by auto
      qed
    qed
  qed
qed

lemma camelWords_total:
  "\<exists>ws. camelWords U s = Inr ws \<and> (list_all (\<lambda>c. byte c < 0x80) s \<longrightarrow> concat ws = s)"
proof -
  from camelLoop_invariant [of 0 0 s U "[]"]
  obtain lp ws where loop: "camelLoop U s (runes s) 0 0 [] = Inr (lp, ws)" "lp \<le> length s"
    and cat: "list_all (\<lambda>c. byte c < 0x80) s \<longrightarrow> concat ws = take lp s"
    by auto
  let ?out = "if drop lp s \<noteq> [] then ws @ [drop lp s] else ws"
  have "camelWords U s = Inr ?out"
    using loop by (simp add: camelWords_def sliceFrom_def)
  moreover have "concat ?out = s" if "list_all (\<lambda>c. byte c < 0x80) s"
  proof -
    from that cat have "concat ws = take lp s" by simp
    then have "concat ?out = take lp s @ drop lp s" by simp
    then show ?thesis by simp
  qed
  ultimately show ?thesis by blast
qed

lemma joinWords_from:
  "foldl (\<lambda>result (k, word). (if k > 0 then result @ ''_'' else result) @ ToLower U word)
      acc (enumerate (Suc n) ws)
    = acc @ concat (map (\<lambda>w. ''_'' @ ToLower U w) ws)"
  by (induction ws arbitrary: acc n) simp_all

lemma Join_concat: "Join (x # xs) sep = x @ concat (map (\<lambda>w. sep @ w) xs)"
  by (induction xs arbitrary: x) simp_all

lemma joinWords_Join: "joinWords U ws = Join (map (ToLower U) ws) ''_''"
proof (cases ws)
  case Nil
  then show ?thesis by (simp add: joinWords_def)
next
  case (Cons w ws')
  then show ?thesis
    by (simp add: joinWords_def joinWords_from Join_concat comp_def del: Join.simps)
qed

text \<open>
  \<^verbatim>\<open>CamelToSnake\<close> is total: on every string of bytes, whatever the Unicode tables, it
  returns a string and does not panic. On an input of ASCII bytes every character passes
  through as part of a word: the result is the words, lowered and joined by underscores,
  and the words put together are the input.
\<close>

theorem CamelToSnake_total:
  "(\<exists>out. CamelToSnake U s = Inr out)
   \<and> (list_all (\<lambda>c. byte c < 0x80) s \<longrightarrow>
        (\<exists>ws. concat ws = s \<and> CamelToSnake U s = Inr (Join (map (ToLower U) ws) ''_'')))"
proof -
  from camelWords_total [of U s] obtain ws where
    ws: "camelWords U s = Inr ws" "list_all (\<lambda>c. byte c < 0x80) s \<longrightarrow> concat ws = s"
    by blast
  then have "CamelToSnake U s = Inr (Join (map (ToLower U) ws) ''_'')"
    by (simp add: CamelToSnake_def joinWords_Join)
  with ws(2) show ?thesis by blast
qed

lemma CamelToSnake_total_example:
  "list_all (\<lambda>c. byte c < 0x80) ''user_ID2''
   \<and> (\<exists>ws. concat ws = ''user_ID2''
         \<and> CamelToSnake sampleTables ''user_ID2'' = Inr (Join (map (ToLower sampleTables) ws) ''_''))
   \<and> CamelToSnake sampleTables ''user_ID2'' = Inr ''user__id_2''"
proof -
  have h: "list_all (\<lambda>c. byte c < 0x80) ''user_ID2''" by (simp add: byte_def)
  have "CamelToSnake sampleTables ''user_ID2'' = Inr ''user__id_2''" by (simp add: camel_eval)
  with CamelToSnake_total [of sampleTables "''user_ID2''"] h show ?thesis by blast
qed

text \<open>
  Claim C7 says that \<^verbatim>\<open>toSnakeCase\<close> never fails and that unrecognized characters, non-ASCII
  ones included, pass through as part of a word. The function never fails (see above), but
  a character of more than one byte moves the rune index \<open>i\<close> away from the byte offsets it
  is used for. The identifier \<^verbatim>\<open>Caf\u00e9ID\<close> is the seven bytes \<^verbatim>\<open>Caf\xc3\xa9ID\<close> and six
  runes: the two bytes of its fourth character end in different words, and the result has
  the replacement character U+FFFD twice where the character was. In \<^verbatim>\<open>\u00e9xIDxX\<close> the
  byte \<^verbatim>\<open>x\<close> at offset 5 is in no word and is missing from the result.
\<close>

theorem multibyte_input_is_not_passed_through:
  "runes (''Caf'' @ [CHR 0xC3, CHR 0xA9] @ ''ID'') = [0x43, 0x61, 0x66, 0xE9, 0x49, 0x44]
   \<and> camelWords sampleTables (''Caf'' @ [CHR 0xC3, CHR 0xA9] @ ''ID'')
       = Inr [''Caf'' @ [CHR 0xC3], [CHR 0xA9], ''ID'']
   \<and> CamelToSnake sampleTables (''Caf'' @ [CHR 0xC3, CHR 0xA9] @ ''ID'')
       = Inr (''caf'' @ [CHR 0xEF, CHR 0xBF, CHR 0xBD] @ ''_'' @ [CHR 0xEF, CHR 0xBF, CHR 0xBD] @ ''_id'')
   \<and> camelWords sampleTables ([CHR 0xC3, CHR 0xA9] @ ''xIDxX'')
       = Inr [[CHR 0xC3, CHR 0xA9], ''x'', ''ID'', ''X'']
   \<and> CamelToSnake sampleTables ([CHR 0xC3, CHR 0xA9] @ ''xIDxX'')
       = Inr ([CHR 0xC3, CHR 0xA9] @ ''_x_id_x'')"
  by (simp add: camel_eval sampleTables_def EncodeRune_def ToLowerRune_def RuneError_def)

section \<open>The tag of the key json\<close>

text \<open>
  Claim C4: with \<open>label\<close> the snake-case form of the field's name, the update of the tags
  follows three cases. With no entry for \<^verbatim>\<open>json\<close>, one is added with the value \<open>label\<close>;
  an entry whose value begins with a comma gets the value \<open>label\<close> followed by the old
  value; an entry with any other value leaves the tags as they are.
\<close>

theorem synthesize_policy:
  "CamelToSnake U fieldName = Inr label \<Longrightarrow>
    (tags ''json'' = None \<longrightarrow> synthesize U fieldName tags = Inr (tags(''json'' \<mapsto> label)))
    \<and> (\<forall>v. tags ''json'' = Some v \<and> HasPrefix v '','' \<longrightarrow>
          synthesize U fieldName tags = Inr (tags(''json'' \<mapsto> label @ v)))
    \<and> (\<forall>v. tags ''json'' = Some v \<and> \<not> HasPrefix v '','' \<longrightarrow>
          synthesize U fieldName tags = Inr tags)"
  by (simp add: synthesize_def)

theorem synthesize_policy_witness:
  "CamelToSnake sampleTables ''UserName'' = Inr ''user_name''
   \<and> synthesize sampleTables ''UserName'' Map.empty = Inr [''json'' \<mapsto> ''user_name'']
   \<and> synthesize sampleTables ''UserName'' [''json'' \<mapsto> '',omitempty'']
       = Inr [''json'' \<mapsto> ''user_name,omitempty'']
   \<and> synthesize sampleTables ''UserName'' [''json'' \<mapsto> ''custom_field'']
       = Inr [''json'' \<mapsto> ''custom_field'']"
proof -
  have h: "CamelToSnake sampleTables ''UserName'' = Inr ''user_name''"
    by (simp add: camel_eval)
  show ?thesis
    using h synthesize_policy [OF h, of Map.empty]
      synthesize_policy [OF h, of "[''json'' \<mapsto> '',omitempty'']"]
      synthesize_policy [OF h, of "[''json'' \<mapsto> ''custom_field'']"]
    by (simp add: HasPrefix_def)
qed

(* C8 *)

section \<open>Parsing a serialized tag\<close>

lemma not_tagChar_punct [simp]:
  "\<not> tagChar (CHR '' '')" "\<not> tagChar (CHR '':'')" "\<not> tagChar (CHR 0x22)"
  by (simp_all add: tagChar_def byte_def)















section \<open>The order of the entries in an emitted tag\<close>

text \<open>
  Claim C1 says that two runs on the same input print the same text. The program
  serializes the tags of a field by a \<^verbatim>\<open>range\<close> over a map. For the field
  \<^verbatim>\<open>Name string `validate:"required"`\<close> the map has the keys \<^verbatim>\<open>validate\<close> and \<^verbatim>\<open>json\<close>;
  both orders are orders the \<^verbatim>\<open>range\<close> statement may take, and the two runs print
  different text.
\<close>

theorem tag_order_differs_between_runs:
  "synthesize sampleTables ''Name'' (tagParser (''validate:'' @ dq @ ''required'' @ dq))
     = Inr [''validate'' \<mapsto> ''required'', ''json'' \<mapsto> ''name'']
   \<and> rangeOver [''validate'' \<mapsto> ''required'', ''json'' \<mapsto> ''name'']
        [(''validate'', ''required''), (''json'', ''name'')]
   \<and> rangeOver [''validate'' \<mapsto> ''required'', ''json'' \<mapsto> ''name'']
        [(''json'', ''name''), (''validate'', ''required'')]
   \<and> genSpec (sampleEnv [(''validate'', ''required''), (''json'', ''name'')]) [''User''] taggedStruct
       = Inr (mirrorType ''User''
               (''Name string `validate:'' @ dq @ ''required'' @ dq @ '' json:'' @ dq @ ''name'' @ dq
                 @ ''`'' @ nl)
             @ marshalMethod ''User'' @ constructor ''User'' [''Name''])
   \<and> genSpec (sampleEnv [(''json'', ''name''), (''validate'', ''required'')]) [''User''] taggedStruct
       = Inr (mirrorType ''User''
               (''Name string `json:'' @ dq @ ''name'' @ dq @ '' validate:'' @ dq @ ''required'' @ dq
                 @ ''`'' @ nl)
             @ marshalMethod ''User'' @ constructor ''User'' [''Name''])
   \<and> genFiles (sampleEnv [(''validate'', ''required''), (''json'', ''name'')]) [''User'']
        [[GenDecl token_TYPE [taggedStruct]]]
       \<noteq> genFiles (sampleEnv [(''json'', ''name''), (''validate'', ''required'')]) [''User'']
        [[GenDecl token_TYPE [taggedStruct]]]"
  by (simp add: taggedStruct_def rangeOver_def gen_eval tag_eval camel_eval fun_upd_twist)

section \<open>The fields the constructor copies\<close>

text \<open>
  Claim C2 says that the constructor copies only fields of the mirror type. For
  \<^verbatim>\<open>type T struct { A int; B []string }\<close> the loop over the fields prints a line for \<open>A\<close>
  only and stores both names, so the mirror type has the field \<open>A\<close> and the constructor
  assigns \<^verbatim>\<open>v.A\<close> and \<^verbatim>\<open>v.B\<close>.
\<close>

theorem constructor_copies_omitted_field:
  "genFields (sampleEnv [(''json'', ''a'')]) 
      [\<lparr>Names = [''A''], Type = Ident ''int'', Tag = None\<rparr>,
       \<lparr>Names = [''B''], Type = NotIdent, Tag = None\<rparr>]
     = Inr (''A int `json:'' @ dq @ ''a'' @ dq @ ''`'' @ nl, [''A'', ''B''])
   \<and> genSpec (sampleEnv [(''json'', ''a'')]) [''T''] mixedStruct
     = Inr (''type TJSON struct {'' @ nl
           @ ''A int `json:'' @ dq @ ''a'' @ dq @ ''`'' @ nl
           @ ''}'' @ nl
           @ nl
           @ marshalMethod ''T''
           @ ''func NewTJSON(m *T) *TJSON {'' @ nl
           @ tab @ ''v := &TJSON{}'' @ nl
           @ tab @ ''v.A = m.A'' @ nl
           @ tab @ ''v.B = m.B'' @ nl
           @ ''return v'' @ nl
           @ ''}'' @ nl
           @ nl)"
  by (simp add: mixedStruct_def gen_eval tag_eval camel_eval)

section \<open>A formatter that fails\<close>

text \<open>
  Claim C8: when \<^verbatim>\<open>format.Source\<close> fails on the generated buffer, \<^verbatim>\<open>format\<close> returns the
  buffer as it is and logs two warnings; the run goes on to write the buffer to the
  output file and ends without error.
\<close>

theorem format_failure_falls_back:
  "Source E (header osArgs pkgName @ body) = Inl err \<Longrightarrow>
   parseFiles files = Inr asts \<Longrightarrow> genFiles E types asts = Inr body \<Longrightarrow>
   outputName E output types dir = Inr name \<Longrightarrow>
   WriteFile E name (header osArgs pkgName @ body) = None \<Longrightarrow>
   format E (header osArgs pkgName @ body)
     = (header osArgs pkgName @ body,
        [''json_snake: warning: internal error: invalid Go generated: '' @ err,
         ''json_snake: warning: compile the package to analyze the error''])
   \<and> main E osArgs types output dir pkgName files
     = \<lparr>status = ExitOK,
        logged = [''json_snake: warning: internal error: invalid Go generated: '' @ err,
                  ''json_snake: warning: compile the package to analyze the error''],
        written = Some (name, header osArgs pkgName @ body)\<rparr>"
  by (simp add: format_def main_def)

theorem format_failure_falls_back_witness:
  "Source (sampleEnv [(''json'', ''a'')]) 
      (header [''-type=T''] ''p'' @ mirrorType ''T'' (''A int `json:'' @ dq @ ''a'' @ dq @ ''`'' @ nl)
        @ marshalMethod ''T'' @ constructor ''T'' [''A'', ''B''])
     = Inl ''syntax error''
   \<and> parseFiles sampleFiles
     = Inr [[NotGenDecl, GenDecl token_TYPE [mixedStruct, TypeSpec ''N'' NotStructType]]]
   \<and> genFiles (sampleEnv [(''json'', ''a'')]) [''T'']
        [[NotGenDecl, GenDecl token_TYPE [mixedStruct, TypeSpec ''N'' NotStructType]]]
     = Inr (mirrorType ''T'' (''A int `json:'' @ dq @ ''a'' @ dq @ ''`'' @ nl)
        @ marshalMethod ''T'' @ constructor ''T'' [''A'', ''B''])
   \<and> outputName (sampleEnv [(''json'', ''a'')]) [] [''T''] ''.'' = Inr ''./t_json.go''
   \<and> main (sampleEnv [(''json'', ''a'')]) [''-type=T''] [''T''] [] ''.'' ''p'' sampleFiles
     = \<lparr>status = ExitOK,
        logged = [''json_snake: warning: internal error: invalid Go generated: syntax error'',
                  ''json_snake: warning: compile the package to analyze the error''],
        written = Some (''./t_json.go'',
          header [''-type=T''] ''p'' @ mirrorType ''T'' (''A int `json:'' @ dq @ ''a'' @ dq @ ''`'' @ nl)
            @ marshalMethod ''T'' @ constructor ''T'' [''A'', ''B''])\<rparr>"
proof -
  let ?E = "sampleEnv [(''json'', ''a'')]"
  let ?asts = "[[NotGenDecl, GenDecl token_TYPE [mixedStruct, TypeSpec ''N'' NotStructType]]]"
  let ?body = "mirrorType ''T'' (''A int `json:'' @ dq @ ''a'' @ dq @ ''`'' @ nl)
        @ marshalMethod ''T'' @ constructor ''T'' [''A'', ''B'']"
  have h1: "Source ?E (header [''-type=T''] ''p'' @ ?body) = Inl ''syntax error''"
    by (simp add: sampleEnv_def)
  have h2: "parseFiles sampleFiles = Inr ?asts" by (simp add: sampleFiles_def)
  have h3: "genFiles ?E [''T''] ?asts = Inr ?body"
    by (simp add: mixedStruct_def gen_eval tag_eval camel_eval)
  have h4: "outputName ?E [] [''T''] ''.'' = Inr ''./t_json.go''"
    by (simp add: outputName_def sampleEnv_def ToLower_def byte_def char_of_def bit_iff_odd)
  have h5: "WriteFile ?E ''./t_json.go'' (header [''-type=T''] ''p'' @ ?body) = None"
    by (simp add: sampleEnv_def)
  from format_failure_falls_back [OF h1 h2 h3 h4 h5] h1 h2 h3 h4 show ?thesis by simp
qed

section \<open>Requested names without a struct declaration\<close>















end
